theory Spec2Isabelle
  imports Complex_Main "HOL-Library.Char_ord" "HOL-Library.List_Lexorder" "HOL-Library.Multiset"
begin

section \<open>Approval gate (backend/plan_approval.py)\<close>

text \<open>
  The module keeps two dictionaries, \<open>_plan_approval_events\<close> (plan id to
  \<open>asyncio.Event\<close>) and \<open>_plan_approval_results\<close> (plan id to bool). An
  \<open>asyncio.Event\<close> is an object with identity and an internal flag; the caller of
  \<open>register_plan_approval\<close> keeps the object it was handed and waits on it. The
  objects therefore live in an explicit store: a reference is a number, \<open>event_store\<close>
  maps each allocated reference to its flag, and \<open>next_event\<close> is the next unused
  reference.
\<close>

type_synonym event_ref = nat

record approval_registry =
  plan_approval_events :: "string \<rightharpoonup> event_ref"
  plan_approval_results :: "string \<rightharpoonup> bool"
  event_store :: "event_ref \<rightharpoonup> bool"
  next_event :: event_ref

definition empty_registry :: approval_registry where
  "empty_registry =
     \<lparr>plan_approval_events = Map.empty, plan_approval_results = Map.empty,
      event_store = Map.empty, next_event = 0\<rparr>"

text \<open>
  \<^verbatim>\<open>evt = asyncio.Event(); _plan_approval_events[plan_id] = evt; return evt\<close>
\<close>

definition register_plan_approval ::
  "approval_registry \<Rightarrow> string \<Rightarrow> event_ref \<times> approval_registry" where
  "register_plan_approval s plan_id =
     (let evt = next_event s in
      (evt,
       s\<lparr>event_store := (event_store s)(evt \<mapsto> False),
         next_event := Suc evt,
         plan_approval_events := (plan_approval_events s)(plan_id \<mapsto> evt)\<rparr>))"

text \<open>
  \<^verbatim>\<open>evt = _plan_approval_events.pop(plan_id, None)
if evt is None: return False
_plan_approval_results[plan_id] = approved; evt.set(); return True\<close>
\<close>

definition resolve_plan_approval ::
  "approval_registry \<Rightarrow> string \<Rightarrow> bool \<Rightarrow> bool \<times> approval_registry" where
  "resolve_plan_approval s plan_id approved =
     (case plan_approval_events s plan_id of
        None \<Rightarrow> (False, s)
      | Some evt \<Rightarrow>
          (True,
           s\<lparr>plan_approval_events := (plan_approval_events s)(plan_id := None),
             plan_approval_results := (plan_approval_results s)(plan_id \<mapsto> approved),
             event_store := (event_store s)(evt \<mapsto> True)\<rparr>))"

text \<open>\<^verbatim>\<open>return _plan_approval_results.pop(plan_id, True)\<close>\<close>

definition get_plan_approval_result ::
  "approval_registry \<Rightarrow> string \<Rightarrow> bool \<times> approval_registry" where
  "get_plan_approval_result s plan_id =
     (case plan_approval_results s plan_id of
        None \<Rightarrow> (True, s)
      | Some b \<Rightarrow> (b, s\<lparr>plan_approval_results := (plan_approval_results s)(plan_id := None)\<rparr>))"

text \<open>\<open>evt.is_set()\<close>: what a waiter blocked in \<open>evt.wait()\<close> observes.\<close>

definition is_set :: "approval_registry \<Rightarrow> event_ref \<Rightarrow> bool" where
  "is_set s evt = (event_store s evt = Some True)"

text \<open>A run of further calls on the same plan id, with the answers collected in order.\<close>

fun resolve_each :: "approval_registry \<Rightarrow> string \<Rightarrow> bool list \<Rightarrow> bool list \<times> approval_registry" where
  "resolve_each s plan_id [] = ([], s)"
| "resolve_each s plan_id (b # bs) =
     (let (r, s') = resolve_plan_approval s plan_id b;
          (rs, s'') = resolve_each s' plan_id bs
      in (r # rs, s''))"

fun get_result_times :: "nat \<Rightarrow> approval_registry \<Rightarrow> string \<Rightarrow> bool list \<times> approval_registry" where
  "get_result_times 0 s plan_id = ([], s)"
| "get_result_times (Suc n) s plan_id =
     (let (r, s') = get_plan_approval_result s plan_id;
          (rs, s'') = get_result_times n s' plan_id
      in (r # rs, s''))"

section \<open>Configuration values\<close>

text \<open>
  \<open>graph_config\<close> is the dictionary loaded from \<open>graph_config.yaml\<close>: nested
  dictionaries, lists and scalars. A Python dictionary keeps its entries in insertion
  order, and that order is what \<open>json.dumps\<close> prints unless it is told to sort, so an
  object is an association list; a Python dictionary never holds a key twice, which
  is said where it matters (\<open>same_config\<close>).
\<close>

datatype json =
    JNull
  | JBool bool
  | JInt int
  | JStr string
  | JList "json list"
  | JObj "(string \<times> json) list"

datatype py_error = AttributeError | TypeError

text \<open>Sequencing of calls that may raise: the first exception ends the function.\<close>

definition and_then :: "py_error + 'a \<Rightarrow> ('a \<Rightarrow> py_error + 'b) \<Rightarrow> py_error + 'b" where
  "and_then r f = (case r of Inl e \<Rightarrow> Inl e | Inr v \<Rightarrow> f v)"

text \<open>
  \<open>d.get(key, default)\<close>. On a value that is not a dictionary the attribute
  \<open>get\<close> does not exist and Python raises \<open>AttributeError\<close>.
\<close>

fun py_get :: "json \<Rightarrow> string \<Rightarrow> json \<Rightarrow> py_error + json" where
  "py_get (JObj kvs) key dflt = Inr (case map_of kvs key of None \<Rightarrow> dflt | Some v \<Rightarrow> v)"
| "py_get _ key dflt = Inl AttributeError"

text \<open>The truth value Python gives a value in \<open>if x:\<close>.\<close>

fun truthy :: "json \<Rightarrow> bool" where
  "truthy JNull = False"
| "truthy (JBool b) = b"
| "truthy (JInt i) = (i \<noteq> 0)"
| "truthy (JStr s) = (s \<noteq> [])"
| "truthy (JList xs) = (xs \<noteq> [])"
| "truthy (JObj kvs) = (kvs \<noteq> [])"

section \<open>Graph assembler (backend/engine/graph_builder.py)\<close>

text \<open>
  What \<open>build_graph\<close> does to the \<open>StateGraph\<close> it creates, as state passing: the
  declared nodes in the order of \<open>add_node\<close>, the plain edges in the order of
  \<open>add_edge\<close>, and for every \<open>add_conditional_edges(source, router, path_map)\<close> the
  source with its path map (router answer, target). The router functions come from
  \<open>engine.edges\<close> and decide at run time; the topology is the path map.
  \<open>set_entry_point(n)\<close> is LangGraph's \<open>add_edge(START, n)\<close>.
\<close>

record state_graph =
  nodes :: "string list"
  edges :: "(string \<times> string) list"
  branches :: "(string \<times> (string \<times> string) list) list"

definition START :: string where "START = ''__start__''"
definition END :: string where "END = ''__end__''"

definition empty_graph :: state_graph where
  "empty_graph = \<lparr>nodes = [], edges = [], branches = []\<rparr>"

definition add_node :: "state_graph \<Rightarrow> string \<Rightarrow> state_graph" where
  "add_node g n = g\<lparr>nodes := nodes g @ [n]\<rparr>"

definition add_edge :: "state_graph \<Rightarrow> string \<Rightarrow> string \<Rightarrow> state_graph" where
  "add_edge g a b = g\<lparr>edges := edges g @ [(a, b)]\<rparr>"

definition add_conditional_edges ::
  "state_graph \<Rightarrow> string \<Rightarrow> (string \<times> string) list \<Rightarrow> state_graph" where
  "add_conditional_edges g src path_map = g\<lparr>branches := branches g @ [(src, path_map)]\<rparr>"

definition set_entry_point :: "state_graph \<Rightarrow> string \<Rightarrow> state_graph" where
  "set_entry_point g n = add_edge g START n"

text \<open>Every edge of the graph: the plain ones and one per target of each path map.\<close>

definition all_edges :: "state_graph \<Rightarrow> (string \<times> string) list" where
  "all_edges g =
     edges g @ concat (map (\<lambda>(src, path_map). map (\<lambda>(answer, dst). (src, dst)) path_map) (branches g))"

text \<open>
  Lines 127 to 237 of \<open>build_graph\<close>: the nodes and edges, by the four toggles as
  the \<open>if\<close> statements test them.
\<close>

definition build_graph_wiring :: "bool \<Rightarrow> bool \<Rightarrow> bool \<Rightarrow> bool \<Rightarrow> state_graph" where
  "build_graph_wiring planner_enabled approval_enabled replanner_enabled summarizer_enabled =
     (let graph = empty_graph;
          graph = add_node graph ''agent'';
          graph =
            (if planner_enabled then
               let graph = add_node graph ''plan_gate'';
                   graph = (if approval_enabled then add_node graph ''approval'' else graph);
                   graph = add_node graph ''executor_pre'';
                   graph = add_node graph ''executor'';
                   graph = (if replanner_enabled then add_node graph ''replanner'' else graph);
                   graph = (if summarizer_enabled then add_node graph ''summarizer'' else graph)
               in graph
             else graph);
          graph = set_entry_point graph ''agent'';
          graph =
            (if planner_enabled then
               let graph = add_conditional_edges graph ''agent''
                             [(''plan_gate'', ''plan_gate''), (END, END)];
                   graph = add_edge graph ''executor_pre'' ''executor'';
                   graph =
                     (if approval_enabled then
                        let graph = add_conditional_edges graph ''plan_gate''
                                      [(''approval'', ''approval''),
                                       (''executor_pre'', ''executor_pre'')];
                            graph = add_conditional_edges graph ''approval''
                                      [(''executor_pre'', ''executor_pre''), (''agent'', ''agent'')]
                        in graph
                      else add_edge graph ''plan_gate'' ''executor_pre'');
                   graph =
                     (if replanner_enabled then
                        let graph = add_edge graph ''executor'' ''replanner'' in
                        if summarizer_enabled then
                          let graph = add_conditional_edges graph ''replanner''
                                        [(''executor_pre'', ''executor_pre''),
                                         (''summarizer'', ''summarizer'')];
                              graph = add_edge graph ''summarizer'' ''agent''
                          in graph
                        else
                          add_conditional_edges graph ''replanner''
                            [(''executor_pre'', ''executor_pre''), (''summarizer'', END)]
                      else
                        if summarizer_enabled then
                          let graph = add_conditional_edges graph ''executor''
                                        [(''executor_pre'', ''executor_pre''),
                                         (''summarizer'', ''summarizer'')];
                              graph = add_edge graph ''summarizer'' ''agent''
                          in graph
                        else
                          add_conditional_edges graph ''executor''
                            [(''executor_pre'', ''executor_pre''), (END, END)])
               in graph
             else add_edge graph ''agent'' END)
      in graph)"

text \<open>
  \<open>graph_config.get("graph", {}).get("nodes", {})\<close> and
  \<open>nodes_cfg.get(name, {}).get("enabled", default)\<close>.
\<close>

definition nodes_cfg_of :: "json \<Rightarrow> py_error + json" where
  "nodes_cfg_of graph_config =
     and_then (py_get graph_config ''graph'' (JObj [])) (\<lambda>graph_section.
       py_get graph_section ''nodes'' (JObj []))"

definition node_enabled :: "json \<Rightarrow> string \<Rightarrow> bool \<Rightarrow> py_error + json" where
  "node_enabled nodes_cfg name dflt =
     and_then (py_get nodes_cfg name (JObj [])) (\<lambda>node_cfg.
       py_get node_cfg ''enabled'' (JBool dflt))"

text \<open>
  \<open>build_graph\<close>. The toggles are read with their defaults (planner, replanner and
  summarizer on, approval off) and tested by truth value. \<open>get_settings\<close> belongs to
  \<open>engine.config_loader\<close>, which is not part of the sources at hand, so it is a
  parameter; its result is read once, for \<open>recursion_limit\<close>, after the graph is
  wired, and the value read is not used. \<open>graph.compile\<close> is LangGraph's and returns
  the compiled form of the same graph.
\<close>

definition build_graph :: "(json \<Rightarrow> py_error + json) \<Rightarrow> json \<Rightarrow> py_error + state_graph" where
  "build_graph get_settings graph_config =
     and_then (nodes_cfg_of graph_config) (\<lambda>nodes_cfg.
     and_then (get_settings graph_config) (\<lambda>settings_cfg.
     and_then (node_enabled nodes_cfg ''planner'' True) (\<lambda>planner_enabled.
     and_then (node_enabled nodes_cfg ''approval'' False) (\<lambda>approval_enabled.
     and_then (node_enabled nodes_cfg ''replanner'' True) (\<lambda>replanner_enabled.
     and_then (node_enabled nodes_cfg ''summarizer'' True) (\<lambda>summarizer_enabled.
     let graph = build_graph_wiring (truthy planner_enabled) (truthy approval_enabled)
                   (truthy replanner_enabled) (truthy summarizer_enabled)
     in and_then (py_get settings_cfg ''recursion_limit'' (JInt 100)) (\<lambda>recursion_limit.
        Inr graph)))))))"

text \<open>
  The four toggles of a configuration as \<open>build_graph\<close> reads and tests them, in
  the order planner, approval, replanner, summarizer.
\<close>

definition read_toggles :: "json \<Rightarrow> py_error + (bool \<times> bool \<times> bool \<times> bool)" where
  "read_toggles graph_config =
     and_then (nodes_cfg_of graph_config) (\<lambda>nodes_cfg.
     and_then (node_enabled nodes_cfg ''planner'' True) (\<lambda>planner_enabled.
     and_then (node_enabled nodes_cfg ''approval'' False) (\<lambda>approval_enabled.
     and_then (node_enabled nodes_cfg ''replanner'' True) (\<lambda>replanner_enabled.
     and_then (node_enabled nodes_cfg ''summarizer'' True) (\<lambda>summarizer_enabled.
       Inr (truthy planner_enabled, truthy approval_enabled,
            truthy replanner_enabled, truthy summarizer_enabled))))))"

text \<open>A configuration that sets exactly the four toggles.\<close>

definition toggle_config :: "bool \<Rightarrow> bool \<Rightarrow> bool \<Rightarrow> bool \<Rightarrow> json" where
  "toggle_config p a r s =
     JObj [(''graph'', JObj [(''nodes'', JObj
       [(''planner'', JObj [(''enabled'', JBool p)]),
        (''approval'', JObj [(''enabled'', JBool a)]),
        (''replanner'', JObj [(''enabled'', JBool r)]),
        (''summarizer'', JObj [(''enabled'', JBool s)])])])]"

subsection \<open>Vocabulary for the topology\<close>

text \<open>
  The back edges that return to the main loop, and the back edges of the step loop
  (from the replanner, or from the executor when there is no replanner, to
  \<open>executor_pre\<close>).
\<close>

definition designed_backedges :: "(string \<times> string) set" where
  "designed_backedges = {(''summarizer'', ''agent''), (''approval'', ''agent'')}"

definition step_loop_backedges :: "(string \<times> string) set" where
  "step_loop_backedges = {(''replanner'', ''executor_pre''), (''executor'', ''executor_pre'')}"

text \<open>
  A search that decides reachability in a finite edge list: \<open>reach k es xs\<close> is
  \<open>xs\<close> with everything at most \<open>k\<close> edges away.
\<close>

definition succs :: "(string \<times> string) list \<Rightarrow> string \<Rightarrow> string list" where
  "succs es a = map snd (filter (\<lambda>e. fst e = a) es)"

fun reach :: "nat \<Rightarrow> (string \<times> string) list \<Rightarrow> string list \<Rightarrow> string list" where
  "reach 0 es xs = xs"
| "reach (Suc k) es xs = reach k es (remdups (xs @ concat (map (succs es) xs)))"

definition reaches_all_and_end :: "state_graph \<Rightarrow> bool" where
  "reaches_all_and_end g =
     list_all (\<lambda>n. n \<in> set (reach 8 (all_edges g) (succs (all_edges g) START))
                 \<and> END \<in> set (reach 8 (all_edges g) (succs (all_edges g) n)))
       (nodes g)"

text \<open>A position for every node name; forward edges go to a higher position.\<close>

definition node_rank :: "string \<Rightarrow> nat" where
  "node_rank n =
     (if n = START then 0 else if n = ''agent'' then 1 else if n = ''plan_gate'' then 2
      else if n = ''approval'' then 3 else if n = ''executor_pre'' then 4
      else if n = ''executor'' then 5 else if n = ''replanner'' then 6
      else if n = ''summarizer'' then 7 else 8)"

definition forward_edges_ascend :: "state_graph \<Rightarrow> bool" where
  "forward_edges_ascend g =
     list_all (\<lambda>e. e \<in> designed_backedges \<union> step_loop_backedges
                 \<or> node_rank (fst e) < node_rank (snd e))
       (all_edges g)"

definition edges_declared :: "state_graph \<Rightarrow> bool" where
  "edges_declared g =
     list_all (\<lambda>e. fst e \<in> set (START # nodes g) \<and> snd e \<in> set (END # nodes g)) (all_edges g)"

section \<open>Plan execution (backend/graph/agent.py)\<close>

text \<open>
  A Python \<open>str\<close> is a sequence of Unicode code points, and \<open>s[:n]\<close> and
  \<open>s.strip()\<close> work on code points. A text the loop cuts or strips (titles, results,
  responses, streamed content, run ids) is therefore a list of code points; a text it
  only compares with a literal or hands on (plan id, plan title, status, action,
  reason) is a \<open>string\<close>. \<open>py\<close> gives the code points of an ASCII literal.
\<close>

type_synonym py_str = "int list"

definition py :: "string \<Rightarrow> py_str" where
  "py s = map of_char s"

text \<open>
  A plan step is a dictionary \<open>{"id": int, "title": str, "status": str}\<close>; the
  loop also accepts a step that is not a dictionary and then uses \<open>str(step)\<close> as
  its title and its position as its id. \<open>StepOther\<close> carries that string.
\<close>

datatype step = StepDict (dict_id: int) (dict_title: py_str) (dict_status: string) | StepOther py_str

record plan =
  plan_id :: string
  title :: string
  steps :: "step list"

text \<open>\<open>class ReplanDecision(BaseModel)\<close>\<close>

record replan_decision =
  action :: string
  response :: py_str
  revised_steps :: "py_str list"
  reason :: string

text \<open>
  What the loop sends and yields, in order: \<open>send_plan_updated_event(plan_id, step_id,
  status)\<close>, \<open>send_plan_revised_event(plan_id, new_steps, step_index, reason)\<close>, the
  yielded \<open>token\<close> with its content, \<open>llm_start\<close> and \<open>llm_end\<close> with their
  \<open>call_id\<close> (\<open>run_id[:12]\<close>), \<open>tool_start\<close> and \<open>tool_end\<close> with the name of
  the tool, and \<open>done\<close>. The other fields of the four life-cycle events (prompt and
  output texts, durations, token counts, model name) are left out.
\<close>

datatype event =
    PlanUpdated string int string
  | PlanRevised string "step list" nat string
  | Token py_str
  | LlmStart py_str
  | LlmEnd py_str
  | ToolStart string
  | ToolEnd string
  | Done

text \<open>
  What \<open>sub_agent.astream_events\<close> delivers: the event kinds the loop tests, with
  the chunk content, or the run id and (for a tool) the name of the tool, and any other
  kind.
\<close>

datatype raw_event =
    OnChatModelStream py_str
  | OnChatModelStart py_str
  | OnChatModelEnd py_str
  | OnToolStart py_str string
  | OnToolEnd py_str string
  | OnOther

text \<open>
  The two kinds of entry the loop puts into \<open>debug_tracking\<close>: for a model call a
  dictionary with \<open>start_time\<close>, \<open>node\<close> and \<open>input\<close>, for a tool call (in debug
  mode) a dictionary with \<open>start_time\<close> only.
\<close>

datatype tracked = TrackedLlm | TrackedTool

text \<open>The model's answer to the replanner prompt: an exception or a decision.\<close>

datatype llm_outcome = Raises string | Returns replan_decision

text \<open>
  The replanner prompt is a fixed template around three values: the plan title, the
  completed steps (number, title, result cut to 200 characters) and the remaining steps
  (id, title). The prompt is those values.
\<close>

type_synonym replan_prompt = "string \<times> (nat \<times> py_str \<times> py_str) list \<times> (int \<times> py_str) list"

text \<open>
  The surroundings of the loop: the two settings it reads (\<open>config.settings\<close>), the
  run of the executor sub-agent for a step (the events it streams and the exception that
  ends the stream, if any) and the model behind \<open>_evaluate_replan\<close>.
\<close>

record env =
  plan_max_steps :: int
  plan_revision_enabled :: bool
  sub_agent :: "nat \<Rightarrow> step list \<Rightarrow> (py_str \<times> py_str) list \<Rightarrow> raw_event list \<times> string option"
  replan_llm :: "replan_prompt \<Rightarrow> llm_outcome"

definition step_title_of :: "step \<Rightarrow> py_str" where
  "step_title_of s = (case s of StepDict i t st \<Rightarrow> t | StepOther str \<Rightarrow> str)"

definition step_id_of :: "step \<Rightarrow> nat \<Rightarrow> int" where
  "step_id_of s position = (case s of StepDict i t st \<Rightarrow> i | StepOther str \<Rightarrow> int position + 1)"

text \<open>\<open>xs[i:]\<close> for a Python integer \<open>i\<close>: a negative index counts from the end.\<close>

definition py_slice_from :: "'a list \<Rightarrow> int \<Rightarrow> 'a list" where
  "py_slice_from xs i =
     (if i < 0 then drop (nat (int (length xs) + i)) xs else drop (nat i) xs)"

text \<open>
  \<open>str.strip()\<close> removes at both ends the code points for which \<open>str.isspace\<close>
  holds. In CPython these are U+0009 to U+000D, U+001C to U+0020, U+0085, U+00A0,
  U+1680, U+2000 to U+200A, U+2028, U+2029, U+202F, U+205F and U+3000.
\<close>

definition py_isspace :: "int \<Rightarrow> bool" where
  "py_isspace c =
     ((0x9 \<le> c \<and> c \<le> 0xD) \<or> (0x1C \<le> c \<and> c \<le> 0x20) \<or> c = 0x85 \<or> c = 0xA0
      \<or> c = 0x1680 \<or> (0x2000 \<le> c \<and> c \<le> 0x200A) \<or> c = 0x2028 \<or> c = 0x2029
      \<or> c = 0x202F \<or> c = 0x205F \<or> c = 0x3000)"

definition py_strip :: "py_str \<Rightarrow> py_str" where
  "py_strip s = rev (dropWhile py_isspace (rev (dropWhile py_isspace s)))"

text \<open>
  The values \<open>_evaluate_replan\<close> puts into its prompt: \<open>past_str\<close> numbers the
  completed steps from 1 and cuts each result to 200 characters, \<open>remaining_str\<close>
  gives each remaining step its id (its position for a step that is not a dictionary)
  and its title.
\<close>

definition build_replan_prompt ::
  "string \<Rightarrow> step list \<Rightarrow> (py_str \<times> py_str) list \<Rightarrow> int \<Rightarrow> replan_prompt" where
  "build_replan_prompt plan_title remaining_steps past_steps current_index =
     (let past_str = map (\<lambda>(i, (s, r)). (i + 1, s, take 200 r)) (enumerate 0 past_steps);
          remaining_str =
            map (\<lambda>(i, s). (case s of StepDict sid t st \<Rightarrow> sid
                                    | StepOther str \<Rightarrow> current_index + int i + 1,
                             step_title_of s))
              (enumerate 0 remaining_steps)
      in (plan_title, past_str, remaining_str))"

text \<open>
  \<open>_evaluate_replan\<close>. The second component lists the prompts the model was invoked
  with: it is empty when the model was not invoked. \<open>except Exception\<close> turns the
  exception of the model call into \<open>None\<close>.
\<close>

definition evaluate_replan ::
  "env \<Rightarrow> string \<Rightarrow> step list \<Rightarrow> (py_str \<times> py_str) list \<Rightarrow> int
     \<Rightarrow> replan_decision option \<times> replan_prompt list" where
  "evaluate_replan e plan_title all_steps past_steps current_index =
     (if \<not> plan_revision_enabled e then (None, [])
      else
        let remaining_steps = py_slice_from all_steps current_index in
        if remaining_steps = [] then (None, [])
        else
          let replan_prompt =
                build_replan_prompt plan_title remaining_steps past_steps current_index
          in case replan_llm e replan_prompt of
               Returns decision \<Rightarrow> (Some decision, [replan_prompt])
             | Raises exc \<Rightarrow> (None, [replan_prompt]))"

text \<open>
  The body of \<open>async for event in sub_agent.astream_events(...)\<close>: the events it
  yields, the text it adds to \<open>step_response\<close>, and the exception that ends it, if
  any. \<open>debug_tracking\<close> is the dictionary of that name, \<open>track\<close> stores an
  entry under a key and \<open>untrack\<close> removes the key. \<open>_build_llm_end_event\<close>
  reads \<open>tracked["node"]\<close>; when the entry popped for the run id of a model call is one
  that a tool call stored (a run id that reads \<open>tool_\<close> and the run id of that tool
  call), the key is missing and Python raises \<open>KeyError\<close>.
\<close>

definition track :: "(py_str \<times> tracked) list \<Rightarrow> py_str \<Rightarrow> tracked \<Rightarrow> (py_str \<times> tracked) list" where
  "track debug_tracking key entry = (key, entry) # filter (\<lambda>kv. fst kv \<noteq> key) debug_tracking"

definition untrack :: "(py_str \<times> tracked) list \<Rightarrow> py_str \<Rightarrow> (py_str \<times> tracked) list" where
  "untrack debug_tracking key = filter (\<lambda>kv. fst kv \<noteq> key) debug_tracking"

fun stream_events ::
  "bool \<Rightarrow> (py_str \<times> tracked) list \<Rightarrow> raw_event list \<Rightarrow> event list \<times> py_str \<times> string option" where
  "stream_events debug debug_tracking [] = ([], [], None)"
| "stream_events debug debug_tracking (OnChatModelStream content # evs) =
     (let (out, resp, exc) = stream_events debug debug_tracking evs in
      if content \<noteq> [] then (Token content # out, content @ resp, exc) else (out, resp, exc))"
| "stream_events debug debug_tracking (OnChatModelStart run_id # evs) =
     (let (out, resp, exc) = stream_events debug (track debug_tracking run_id TrackedLlm) evs in
      (LlmStart (take 12 run_id) # out, resp, exc))"
| "stream_events debug debug_tracking (OnChatModelEnd run_id # evs) =
     (case map_of debug_tracking run_id of
        None \<Rightarrow> stream_events debug debug_tracking evs
      | Some TrackedLlm \<Rightarrow>
          (let (out, resp, exc) = stream_events debug (untrack debug_tracking run_id) evs in
           (LlmEnd (take 12 run_id) # out, resp, exc))
      | Some TrackedTool \<Rightarrow> ([], [], Some ''KeyError''))"
| "stream_events debug debug_tracking (OnToolStart run_id tool_name # evs) =
     (let (out, resp, exc) =
        stream_events debug
          (if debug then track debug_tracking (py ''tool_'' @ run_id) TrackedTool
           else debug_tracking)
          evs
      in (ToolStart tool_name # out, resp, exc))"
| "stream_events debug debug_tracking (OnToolEnd run_id tool_name # evs) =
     (let (out, resp, exc) =
        stream_events debug
          (if debug then untrack debug_tracking (py ''tool_'' @ run_id) else debug_tracking) evs
      in (ToolEnd tool_name # out, resp, exc))"
| "stream_events debug debug_tracking (OnOther # evs) = stream_events debug debug_tracking evs"

text \<open>The new steps of a revision, numbered from the position after \<open>step_index\<close>.\<close>

definition new_steps_of :: "nat \<Rightarrow> py_str list \<Rightarrow> step list" where
  "new_steps_of step_index revised =
     map (\<lambda>(i, s). StepDict (int step_index + int i + 1) (py_strip s) ''pending'')
       (enumerate 0 revised)"

record run_result =
  emitted :: "event list"
  final_steps :: "step list"
  raised :: "string option"

text \<open>
  One pass through the body of the \<open>while\<close> loop of \<open>_stream_plan_execution\<close>,
  from the current \<open>steps\<close>, \<open>past_steps\<close>, \<open>step_index\<close> and what has been
  emitted so far. The pass ends at the bottom of the body (\<open>Continue\<close>, with the new
  values of the four), at \<open>break\<close> (\<open>Break\<close>) or with an exception (\<open>Raise\<close>): that
  of \<open>_build_llm_end_event\<close>, or that of the sub-agent at the end of its stream. The
  exception leaves the generator at once.
\<close>

datatype body_result =
    Continue "step list" "(py_str \<times> py_str) list" nat "event list"
  | Break "event list"
  | Raise "event list" string

definition loop_body ::
  "env \<Rightarrow> string \<Rightarrow> string \<Rightarrow> bool \<Rightarrow> step list \<Rightarrow> (py_str \<times> py_str) list \<Rightarrow> nat
     \<Rightarrow> event list \<Rightarrow> body_result" where
  "loop_body e pid plan_title debug all_steps past_steps step_index out =
     (let step = all_steps ! step_index;
          step_title = step_title_of step;
          step_id = step_id_of step step_index;
          out = out @ [PlanUpdated pid step_id ''running''];
          run = sub_agent e step_index all_steps past_steps;
          streamed = stream_events debug [] (fst run);
          step_response = fst (snd streamed);
          out = out @ fst streamed
      in case (case snd (snd streamed) of Some exc \<Rightarrow> Some exc | None \<Rightarrow> snd run) of
           Some exc \<Rightarrow> Raise out exc
         | None \<Rightarrow>
             let out = out @ [PlanUpdated pid step_id ''completed''];
                 past_steps = past_steps @ [(step_title, take 1000 step_response)];
                 step_index = step_index + 1
             in if int (length all_steps) - int step_index > 0 then
                  (case fst (evaluate_replan e plan_title all_steps past_steps (int step_index)) of
                     None \<Rightarrow> Continue all_steps past_steps step_index out
                   | Some decision \<Rightarrow>
                       if action decision = ''finish'' then
                         Break
                           (out
                            @ map (\<lambda>i. PlanUpdated pid (step_id_of (all_steps ! i) i) ''completed'')
                                [step_index..<length all_steps]
                            @ (if response decision \<noteq> []
                               then [Token ([0xA, 0xA] @ response decision)] else []))
                       else if action decision = ''revise'' \<and> revised_steps decision \<noteq> [] then
                         let new_steps = new_steps_of step_index (revised_steps decision);
                             out = out @ [PlanRevised pid new_steps step_index (reason decision)]
                         in Continue (take step_index all_steps @ new_steps) past_steps step_index out
                       else Continue all_steps past_steps step_index out)
                else Continue all_steps past_steps step_index out)"

text \<open>
  The \<open>while\<close> loop with its condition, and the \<open>yield {"type": "done"}\<close> behind
  it. \<open>final_steps\<close> is the value of \<open>steps\<close> when the generator ends.
\<close>

function plan_loop ::
  "env \<Rightarrow> string \<Rightarrow> string \<Rightarrow> bool \<Rightarrow> step list \<Rightarrow> (py_str \<times> py_str) list \<Rightarrow> nat
     \<Rightarrow> event list \<Rightarrow> run_result" where
  "plan_loop e pid plan_title debug all_steps past_steps step_index out =
     (if step_index < length all_steps \<and> int step_index < plan_max_steps e then
        (case loop_body e pid plan_title debug all_steps past_steps step_index out of
           Continue all_steps' past_steps' step_index' out' \<Rightarrow>
             plan_loop e pid plan_title debug all_steps' past_steps' step_index' out'
         | Break out' \<Rightarrow> \<lparr>emitted = out' @ [Done], final_steps = all_steps, raised = None\<rparr>
         | Raise out' exc \<Rightarrow> \<lparr>emitted = out', final_steps = all_steps, raised = Some exc\<rparr>)
      else \<lparr>emitted = out @ [Done], final_steps = all_steps, raised = None\<rparr>)"
  by pat_completeness auto
termination
proof (relation "measure (\<lambda>(e, pid, plan_title, debug, all_steps, past_steps, step_index, out).
        nat (plan_max_steps e - int step_index))")
  fix e pid plan_title debug all_steps past_steps step_index out
    and all_steps' past_steps' step_index' out'
  assume "step_index < length all_steps \<and> int step_index < plan_max_steps e"
    and "loop_body e pid plan_title debug all_steps past_steps step_index out
         = Continue all_steps' past_steps' step_index' out'"
  moreover from this(2) have "step_index' = Suc step_index"
    by (simp add: loop_body_def Let_def split: option.splits if_splits)
  ultimately show
    "((e, pid, plan_title, debug, all_steps', past_steps', step_index', out'),
      (e, pid, plan_title, debug, all_steps, past_steps, step_index, out))
     \<in> measure (\<lambda>(e, pid, plan_title, debug, all_steps, past_steps, step_index, out).
          nat (plan_max_steps e - int step_index))"
    by simp
qed simp

definition stream_plan_execution :: "env \<Rightarrow> plan \<Rightarrow> bool \<Rightarrow> run_result" where
  "stream_plan_execution e plan_data debug =
     plan_loop e (plan_id plan_data) (title plan_data) debug (steps plan_data) [] 0 []"

text \<open>The events that mark a step as running.\<close>

definition is_running :: "event \<Rightarrow> bool" where
  "is_running ev = (case ev of PlanUpdated p i st \<Rightarrow> st = ''running'' | _ \<Rightarrow> False)"

text \<open>
  Scenario C: a plan of three steps with the ids 1, 2, 3, a sub-agent that streams
  nothing, and a model that answers the first replanner call (one completed step) with
  \<open>revise\<close> and two new titles, the first between U+3000 and U+00A0, and every
  later call with \<open>continue\<close>.
\<close>

definition scenario_c_plan :: plan where
  "scenario_c_plan =
     \<lparr>plan_id = ''p'', title = ''t'',
      steps = [StepDict 1 (py ''one'') ''pending'', StepDict 2 (py ''two'') ''pending'',
               StepDict 3 (py ''three'') ''pending'']\<rparr>"

definition scenario_c_env :: env where
  "scenario_c_env =
     \<lparr>plan_max_steps = 8, plan_revision_enabled = True,
      sub_agent = (\<lambda>step_index all_steps past_steps. ([], None)),
      replan_llm = (\<lambda>(plan_title, past_str, remaining_str).
        if length past_str = 1
        then Returns \<lparr>action = ''revise'', response = [],
                      revised_steps = [[0x3000] @ py ''a'' @ [0xA0], py ''b''], reason = ''r''\<rparr>
        else Returns \<lparr>action = ''continue'', response = [], revised_steps = [],
                      reason = []\<rparr>)\<rparr>"

text \<open>A model whose every call raises, with replanning switched on.\<close>

definition failing_env :: env where
  "failing_env =
     \<lparr>plan_max_steps = 8, plan_revision_enabled = True,
      sub_agent = (\<lambda>step_index all_steps past_steps. ([], None)),
      replan_llm = (\<lambda>replan_prompt. Raises ''TimeoutError'')\<rparr>"

section \<open>Checkpoint clean-up and graph cache (backend/engine/graph_builder.py)\<close>

text \<open>
  A key of the checkpointer's \<open>storage\<close> dictionary. The clean-up looks at keys
  that are tuples, \<open>(thread_id, checkpoint_ns, checkpoint_id)\<close> by its comment, and
  skips every other key (line 81); the storage of LangGraph's \<open>MemorySaver\<close> is keyed
  by the thread id itself, a string, with all checkpoints of the thread in the value.
\<close>

datatype storage_key = KTuple "string list" | KOther string

text \<open>
  \<open>_CHECKPOINT_MAX_PER_THREAD\<close> and \<open>_CHECKPOINT_CLEANUP_INTERVAL\<close>: the module
  assigns them once, at lines 47 and 48, and nothing assigns them again.
\<close>

definition CHECKPOINT_MAX_PER_THREAD :: int where
  "CHECKPOINT_MAX_PER_THREAD = 20"

definition CHECKPOINT_CLEANUP_INTERVAL :: real where
  "CHECKPOINT_CLEANUP_INTERVAL = 300"

text \<open>
  The names of the module whose values change while the program runs: the graph cache
  (fingerprint to compiled graph, an object with identity, so a reference into
  \<open>compiled_graphs\<close>), the storage of the checkpointer with its entries in insertion
  order, and the time of the last clean-up.
\<close>

type_synonym graph_ref = nat

record 'v builder_state =
  graph_cache :: "string \<rightharpoonup> graph_ref"
  compiled_graphs :: "graph_ref \<rightharpoonup> state_graph"
  next_graph :: graph_ref
  checkpoint_storage :: "(storage_key \<times> 'v) list"
  last_checkpoint_cleanup :: real

text \<open>The module as it is after import.\<close>

definition initial_builder_state :: "'v builder_state" where
  "initial_builder_state =
     \<lparr>graph_cache = Map.empty, compiled_graphs = Map.empty, next_graph = 0,
      checkpoint_storage = [], last_checkpoint_cleanup = 0\<rparr>"

text \<open>\<open>by_thread.setdefault(thread_id, []).append(key)\<close>\<close>

definition setdefault_append ::
  "(string \<times> storage_key list) list \<Rightarrow> string \<Rightarrow> storage_key \<Rightarrow> (string \<times> storage_key list) list" where
  "setdefault_append by_thread thread_id key =
     (if thread_id \<in> fst ` set by_thread
      then map (\<lambda>(t, ks). if t = thread_id then (t, ks @ [key]) else (t, ks)) by_thread
      else by_thread @ [(thread_id, [key])])"

text \<open>The first loop: tuple keys with at least one component, grouped by \<open>key[0]\<close>.\<close>

definition group_by_thread :: "storage_key list \<Rightarrow> (string \<times> storage_key list) list" where
  "group_by_thread keys =
     foldl (\<lambda>by_thread key.
              case key of
                KTuple (thread_id # rest) \<Rightarrow> setdefault_append by_thread thread_id key
              | _ \<Rightarrow> by_thread)
       [] keys"

text \<open>\<open>lambda k: k[2] if len(k) > 2 else ""\<close>\<close>

definition checkpoint_id_of :: "storage_key \<Rightarrow> string" where
  "checkpoint_id_of k =
     (case k of KTuple ks \<Rightarrow> (if length ks > 2 then ks ! 2 else []) | KOther s \<Rightarrow> [])"

text \<open>
  \<open>sorted(keys, key=..., reverse=True)\<close>: CPython reverses the list, sorts it stably
  in ascending order and reverses the result, so equal keys keep their order.
\<close>

definition sorted_reverse :: "storage_key list \<Rightarrow> storage_key list" where
  "sorted_reverse keys = rev (sort_key checkpoint_id_of (rev keys))"

text \<open>\<open>try: del storage[key]; cleaned += 1 except KeyError: pass\<close>\<close>

definition delete_key ::
  "(storage_key \<times> 'v) list \<times> nat \<Rightarrow> storage_key \<Rightarrow> (storage_key \<times> 'v) list \<times> nat" where
  "delete_key acc key =
     (if key \<in> fst ` set (fst acc)
      then (filter (\<lambda>kv. fst kv \<noteq> key) (fst acc), snd acc + 1)
      else acc)"

text \<open>The body of the second loop for one thread.\<close>

definition prune_thread ::
  "int \<Rightarrow> (storage_key \<times> 'v) list \<times> nat \<Rightarrow> string \<times> storage_key list
     \<Rightarrow> (storage_key \<times> 'v) list \<times> nat" where
  "prune_thread max_per_thread acc entry =
     (let keys = snd entry in
      if int (length keys) \<le> max_per_thread then acc
      else
        let sorted_keys = sorted_reverse keys;
            keys_to_remove = py_slice_from sorted_keys max_per_thread
        in foldl delete_key acc keys_to_remove)"

text \<open>
  \<open>cleanup_old_checkpoints\<close>, called at the time \<open>now\<close>; it returns the number of
  entries it removed. The keys are strings throughout, so the comparisons of the sort
  cannot raise and the \<open>try\<close> around the body has nothing to catch.
\<close>

definition cleanup_old_checkpoints :: "real \<Rightarrow> 'v builder_state \<Rightarrow> nat \<times> 'v builder_state" where
  "cleanup_old_checkpoints now s =
     (if now - last_checkpoint_cleanup s < CHECKPOINT_CLEANUP_INTERVAL then (0, s)
      else
        let s = s\<lparr>last_checkpoint_cleanup := now\<rparr>;
            storage = checkpoint_storage s
        in if storage = [] then (0, s)
           else
             let by_thread = group_by_thread (map fst storage);
                 pruned = foldl (prune_thread CHECKPOINT_MAX_PER_THREAD) (storage, 0) by_thread
             in (snd pruned, s\<lparr>checkpoint_storage := fst pruned\<rparr>))"



subsection \<open>Graph cache\<close>

text \<open>
  \<open>json.dumps(graph_config, sort_keys=True)\<close> prints every dictionary with its
  entries in the order of their keys, at every depth: it prints the tree
  \<open>json_sort_keys graph_config\<close>.
\<close>

primrec json_sort_keys :: "json \<Rightarrow> json" where
  "json_sort_keys JNull = JNull"
| "json_sort_keys (JBool b) = JBool b"
| "json_sort_keys (JInt i) = JInt i"
| "json_sort_keys (JStr s) = JStr s"
| "json_sort_keys (JList xs) = JList (map json_sort_keys xs)"
| "json_sort_keys (JObj kvs) = JObj (sort_key fst (map (map_prod id json_sort_keys) kvs))"

text \<open>
  \<open>_config_fingerprint\<close>: the first 16 characters of the hexadecimal SHA-256 digest
  of that text. The printing of a tree as text and the digest are the work of the
  \<open>json\<close> and \<open>hashlib\<close> libraries; together they are the parameter
  \<open>hexdigest\<close>, applied to the key-sorted tree.
\<close>

definition config_fingerprint :: "(json \<Rightarrow> string) \<Rightarrow> json \<Rightarrow> string" where
  "config_fingerprint hexdigest graph_config = take 16 (hexdigest (json_sort_keys graph_config))"

text \<open>
  \<open>get_or_build_graph\<close>, called at the time \<open>now\<close>. A compiled graph is an
  object: \<open>build_graph\<close> makes a new one on every call, here the next free
  reference. An exception of \<open>build_graph\<close> leaves the function after the clean-up
  and before the cache is written.
\<close>

definition get_or_build_graph ::
  "(json \<Rightarrow> string) \<Rightarrow> (json \<Rightarrow> py_error + json) \<Rightarrow> real \<Rightarrow> 'v builder_state \<Rightarrow> json
     \<Rightarrow> (py_error + graph_ref) \<times> 'v builder_state" where
  "get_or_build_graph hexdigest get_settings now s graph_config =
     (let s = snd (cleanup_old_checkpoints now s);
          fp = config_fingerprint hexdigest graph_config
      in case graph_cache s fp of
           Some compiled \<Rightarrow> (Inr compiled, s)
         | None \<Rightarrow>
             (case build_graph get_settings graph_config of
                Inl err \<Rightarrow> (Inl err, s)
              | Inr graph \<Rightarrow>
                  let compiled = next_graph s in
                  (Inr compiled,
                   s\<lparr>compiled_graphs := (compiled_graphs s)(compiled \<mapsto> graph),
                     next_graph := Suc compiled,
                     graph_cache := (graph_cache s)(fp \<mapsto> compiled)\<rparr>)))"

text \<open>\<open>invalidate_graph_cache\<close>\<close>

definition invalidate_graph_cache :: "'v builder_state \<Rightarrow> 'v builder_state" where
  "invalidate_graph_cache s = s\<lparr>graph_cache := Map.empty\<rparr>"

text \<open>
  Two configurations are the same dictionary to Python when they have the same keys with
  the same values, in whatever order the entries were inserted; lists are compared
  position by position.
\<close>

primrec same_config :: "json \<Rightarrow> json \<Rightarrow> bool" where
  "same_config JNull c = (c = JNull)"
| "same_config (JBool b) c = (c = JBool b)"
| "same_config (JInt i) c = (c = JInt i)"
| "same_config (JStr s) c = (c = JStr s)"
| "same_config (JList xs) c =
     (case c of JList ys \<Rightarrow> list_all2 (\<lambda>same y. same y) (map same_config xs) ys | _ \<Rightarrow> False)"
| "same_config (JObj kvs) c =
     (case c of
        JObj kvs' \<Rightarrow>
          distinct (map fst kvs) \<and> distinct (map fst kvs') \<and> length kvs = length kvs'
          \<and> list_all (\<lambda>(k, same). case map_of kvs' k of None \<Rightarrow> False | Some w \<Rightarrow> same w)
                (map (map_prod id same_config) kvs)
      | _ \<Rightarrow> False)"

text \<open>
  What every use of the cache maintains: different fingerprints map to different
  objects, and every cached object has been allocated.
\<close>

definition cache_ok :: "'v builder_state \<Rightarrow> bool" where
  "cache_ok s =
     (inj_on (graph_cache s) (dom (graph_cache s))
      \<and> (\<forall>fp g. graph_cache s fp = Some g \<longrightarrow> g < next_graph s))"

section \<open>Properties of the approval gate\<close>

lemma resolve_not_pending:
  "plan_approval_events s pid = None \<Longrightarrow> resolve_plan_approval s pid b = (False, s)"
  by (simp add: resolve_plan_approval_def)

lemma resolve_each_not_pending:
  "plan_approval_events s pid = None \<Longrightarrow>
   resolve_each s pid bs = (replicate (length bs) False, s)"
  by (induction bs) (simp_all add: resolve_not_pending)

lemma get_result_absent:
  "plan_approval_results s pid = None \<Longrightarrow> get_plan_approval_result s pid = (True, s)"
  by (simp add: get_plan_approval_result_def)

lemma get_result_times_absent:
  "plan_approval_results s pid = None \<Longrightarrow>
   get_result_times n s pid = (replicate n True, s)"
  by (induction n) (simp_all add: get_result_absent)


lemma resolve_pending:
  assumes "plan_approval_events s pid = Some evt"
  shows "fst (resolve_plan_approval s pid b) = True"
    and "plan_approval_results (snd (resolve_plan_approval s pid b)) pid = Some b"
    and "plan_approval_events (snd (resolve_plan_approval s pid b)) pid = None"
    and "is_set (snd (resolve_plan_approval s pid b)) evt"
  using assms by (simp_all add: resolve_plan_approval_def is_set_def)

text \<open>
  C2, as the code has it. \<open>register_plan_approval\<close> has no duplicate check and no
  failure path: called again for a plan id that is still pending, it hands out a fresh,
  unset event and overwrites the dictionary entry. The registry still holds one pending
  entry for the plan id (the newest), and a later resolve releases the newest event only;
  the event handed out first stays unset.
\<close>

theorem register_replaces_pending:
  "fst (register_plan_approval s pid) = next_event s
   \<and> plan_approval_events (snd (register_plan_approval s pid))
       = (plan_approval_events s)(pid \<mapsto> next_event s)
   \<and> plan_approval_results (snd (register_plan_approval s pid)) = plan_approval_results s
   \<and> \<not> is_set (snd (register_plan_approval s pid)) (next_event s)
   \<and> (let (e1, s1) = register_plan_approval s pid;
           (e2, s2) = register_plan_approval s1 pid;
           (r, s3) = resolve_plan_approval s2 pid b
       in e2 \<noteq> e1 \<and> plan_approval_events s2 pid = Some e2
          \<and> r \<and> is_set s3 e2 \<and> \<not> is_set s3 e1)"
  by (simp add: register_plan_approval_def resolve_plan_approval_def is_set_def Let_def)

text \<open>
  C2, as stated, fails: with \<open>p1\<close> pending on event 0, a second
  \<open>register_plan_approval\<close> for \<open>p1\<close> returns normally with the new event 1 and
  the entry of \<open>p1\<close> now points to event 1.
\<close>

theorem register_twice_counterexample:
  "plan_approval_events (snd (register_plan_approval empty_registry ''p1'')) ''p1'' = Some 0
   \<and> fst (register_plan_approval (snd (register_plan_approval empty_registry ''p1'')) ''p1'') = 1
   \<and> plan_approval_events
        (snd (register_plan_approval (snd (register_plan_approval empty_registry ''p1'')) ''p1''))
        ''p1'' = Some 1"
  by (simp add: register_plan_approval_def empty_registry_def)

text \<open>
  C9. If \<open>pid\<close> has a pending entry whose event is \<open>evt\<close>, the first
  \<open>resolve_plan_approval\<close> returns \<open>True\<close>, stores the approved value, sets
  \<open>evt\<close> and removes the pending entry; every later resolve for the same plan id,
  with any booleans \<open>bs\<close>, returns \<open>False\<close> and leaves the whole registry, so also
  the stored result, as it was. If \<open>pid\<close> has no pending entry, resolve returns
  \<open>False\<close> and changes nothing.
\<close>

theorem resolve_exactly_once:
  "(plan_approval_events s pid = Some evt \<longrightarrow>
      fst (resolve_plan_approval s pid approved) = True
      \<and> plan_approval_results (snd (resolve_plan_approval s pid approved)) pid
          = Some approved
      \<and> is_set (snd (resolve_plan_approval s pid approved)) evt
      \<and> resolve_each (snd (resolve_plan_approval s pid approved)) pid bs
          = (replicate (length bs) False, snd (resolve_plan_approval s pid approved)))
   \<and> (plan_approval_events s pid = None \<longrightarrow>
      resolve_plan_approval s pid approved = (False, s))"
  using resolve_pending [of s pid evt approved]
  by (simp add: resolve_each_not_pending resolve_not_pending)

theorem resolve_exactly_once_witness:
  "plan_approval_events (snd (register_plan_approval empty_registry ''p1'')) ''p1'' = Some 0
   \<and> fst (resolve_plan_approval (snd (register_plan_approval empty_registry ''p1'')) ''p1'' True)
   \<and> resolve_each
        (snd (resolve_plan_approval (snd (register_plan_approval empty_registry ''p1'')) ''p1'' True))
        ''p1'' [False, True]
       = ([False, False],
          snd (resolve_plan_approval (snd (register_plan_approval empty_registry ''p1'')) ''p1'' True))
   \<and> plan_approval_events empty_registry ''p2'' = None
   \<and> resolve_plan_approval empty_registry ''p2'' True = (False, empty_registry)"
proof -
  have h: "plan_approval_events (snd (register_plan_approval empty_registry ''p1'')) ''p1'' = Some 0"
    by (simp add: register_plan_approval_def empty_registry_def)
  have n: "plan_approval_events empty_registry ''p2'' = None"
    by (simp add: empty_registry_def)
  show ?thesis
    using h n
      resolve_exactly_once [of "snd (register_plan_approval empty_registry ''p1'')" "''p1''" 0
        True "[False, True]"]
      resolve_exactly_once [of empty_registry "''p2''" 0 True "[]"]
    by simp
qed

text \<open>
  C10. After a resolve of \<open>pid\<close> with \<open>b\<close> that succeeded, the first
  \<open>get_plan_approval_result\<close> returns \<open>b\<close> and removes the stored entry; any
  number \<open>n\<close> of further calls all return the default \<open>True\<close>.
\<close>

theorem resolve_then_get_result:
  assumes "resolve_plan_approval s pid b = (True, s1)"
  shows "fst (get_plan_approval_result s1 pid) = b
         \<and> plan_approval_results (snd (get_plan_approval_result s1 pid)) pid = None
         \<and> get_result_times n (snd (get_plan_approval_result s1 pid)) pid
             = (replicate n True, snd (get_plan_approval_result s1 pid))"
proof -
  from assms have stored: "plan_approval_results s1 pid = Some b"
    by (auto simp: resolve_plan_approval_def split: option.splits)
  then have gone:
    "plan_approval_results (snd (get_plan_approval_result s1 pid)) pid = None"
    by (simp add: get_plan_approval_result_def)
  from stored have "fst (get_plan_approval_result s1 pid) = b"
    by (simp add: get_plan_approval_result_def)
  with gone show ?thesis
    by (simp add: get_result_times_absent)
qed

theorem resolve_then_get_result_witness:
  "fst (get_plan_approval_result
         (snd (resolve_plan_approval (snd (register_plan_approval empty_registry ''p1'')) ''p1'' False))
         ''p1'') = False
   \<and> get_result_times 2
        (snd (get_plan_approval_result
          (snd (resolve_plan_approval (snd (register_plan_approval empty_registry ''p1'')) ''p1'' False))
          ''p1'')) ''p1''
       = ([True, True],
          snd (get_plan_approval_result
            (snd (resolve_plan_approval (snd (register_plan_approval empty_registry ''p1'')) ''p1'' False))
            ''p1''))"
proof -
  have h: "resolve_plan_approval (snd (register_plan_approval empty_registry ''p1'')) ''p1'' False
           = (True, snd (resolve_plan_approval (snd (register_plan_approval empty_registry ''p1'')) ''p1'' False))"
    by (simp add: resolve_plan_approval_def register_plan_approval_def empty_registry_def)
  show ?thesis
    using resolve_then_get_result [OF h, of 2] by (simp add: numeral_2_eq_2)
qed

section \<open>Properties of the graph assembler\<close>

lemma reach_sound:
  "y \<in> set (reach k es xs) \<Longrightarrow> \<exists>x\<in>set xs. (x, y) \<in> (set es)\<^sup>*"
proof (induction k arbitrary: xs)
  case 0
  then show ?case by auto
next
  case (Suc k)
  then obtain z where z: "z \<in> set (remdups (xs @ concat (map (succs es) xs)))" "(z, y) \<in> (set es)\<^sup>*"
    by fastforce
  show ?case
  proof (cases "z \<in> set xs")
    case True
    with z show ?thesis by blast
  next
    case False
    with z(1) obtain x where "x \<in> set xs" "(x, z) \<in> set es"
      by (auto simp: succs_def)
    with z(2) show ?thesis by (meson converse_rtrancl_into_rtrancl)
  qed
qed

lemma reach_succs_trancl:
  assumes "y \<in> set (reach k es (succs es a))"
  shows "(a, y) \<in> (set es)\<^sup>+"
proof -
  from reach_sound [OF assms] obtain x where "x \<in> set (succs es a)" "(x, y) \<in> (set es)\<^sup>*"
    by blast
  moreover from this(1) have "(a, x) \<in> set es" by (auto simp: succs_def)
  ultimately show ?thesis by (rule_tac rtrancl_into_trancl2)
qed

lemma acyclic_rank:
  assumes "\<And>a b. (a, b) \<in> r \<Longrightarrow> f a < (f b :: nat)"
  shows "acyclic r"
proof -
  have "r \<subseteq> measure f" using assms by auto
  moreover have "acyclic (measure f)" by (simp add: wf_acyclic)
  ultimately show ?thesis by (rule acyclic_subset[rotated])
qed

lemma wiring_reaches: "reaches_all_and_end (build_graph_wiring p a r s)"
  apply (cases p; cases a; cases r; cases s)
  apply (simp_all only: eq_True eq_False)
  apply code_simp+
  done

lemma wiring_ascends: "forward_edges_ascend (build_graph_wiring p a r s)"
  apply (cases p; cases a; cases r; cases s)
  apply (simp_all only: eq_True eq_False)
  apply code_simp+
  done

lemma wiring_declared: "edges_declared (build_graph_wiring p a r s)"
  apply (cases p; cases a; cases r; cases s)
  apply (simp_all only: eq_True eq_False)
  apply code_simp+
  done

lemma wiring_no_planner:
  "nodes (build_graph_wiring False a r s) = [''agent'']"
  "all_edges (build_graph_wiring False a r s) = [(START, ''agent''), (''agent'', END)]"
  by (simp_all add: build_graph_wiring_def all_edges_def add_node_def add_edge_def
      set_entry_point_def empty_graph_def)

lemma build_graph_Inr:
  assumes "build_graph get_settings graph_config = Inr g"
  shows "\<exists>p a r s. read_toggles graph_config = Inr (p, a, r, s) \<and> g = build_graph_wiring p a r s"
  using assms
  by (auto simp: build_graph_def read_toggles_def and_then_def Let_def split: sum.splits)

lemma read_toggles_toggle_config:
  "read_toggles (toggle_config p a r s) = Inr (p, a, r, s)"
  by (simp add: read_toggles_def toggle_config_def nodes_cfg_of_def node_enabled_def and_then_def)

lemma build_graph_toggle_config:
  "build_graph (\<lambda>c. Inr (JObj [])) (toggle_config p a r s) = Inr (build_graph_wiring p a r s)"
  by (simp add: build_graph_def toggle_config_def nodes_cfg_of_def node_enabled_def and_then_def)






text \<open>
  C5, as the code has it. For every configuration on which \<open>build_graph\<close> returns,
  with toggles \<open>(p, a, r, s)\<close> (so for each of the 16 combinations): the graph is the
  wiring of those toggles; every declared node is reachable from the entry and reaches
  \<open>END\<close>; every edge runs between declared nodes or the two sentinels; and every
  cycle passes through one of the back edges, which are summarizer to agent, approval to
  agent, and the back edge of the step loop (replanner to executor_pre, or executor to
  executor_pre when there is no replanner). With the planner off the graph is the single
  edge from \<open>agent\<close> to \<open>END\<close> behind the entry edge.
\<close>

theorem build_graph_topology:
  assumes "read_toggles graph_config = Inr (p, a, r, s)"
      and "build_graph get_settings graph_config = Inr g"
  shows "g = build_graph_wiring p a r s
     \<and> (\<forall>n\<in>set (nodes g). (START, n) \<in> (set (all_edges g))\<^sup>+ \<and> (n, END) \<in> (set (all_edges g))\<^sup>+)
     \<and> (\<forall>e\<in>set (all_edges g). fst e \<in> set (START # nodes g) \<and> snd e \<in> set (END # nodes g))
     \<and> acyclic (set (all_edges g) - (designed_backedges \<union> step_loop_backedges))
     \<and> (\<not> p \<longrightarrow> nodes g = [''agent''] \<and> all_edges g = [(START, ''agent''), (''agent'', END)])"
proof -
  from build_graph_Inr [OF assms(2)] assms(1) have g: "g = build_graph_wiring p a r s"
    by auto
  have reach: "\<forall>n\<in>set (nodes g). (START, n) \<in> (set (all_edges g))\<^sup>+ \<and> (n, END) \<in> (set (all_edges g))\<^sup>+"
    using wiring_reaches [of p a r s] unfolding g reaches_all_and_end_def list_all_iff
    by (blast intro: reach_succs_trancl)
  have decl: "\<forall>e\<in>set (all_edges g). fst e \<in> set (START # nodes g) \<and> snd e \<in> set (END # nodes g)"
    using wiring_declared [of p a r s] unfolding g edges_declared_def list_all_iff by blast
  have "acyclic (set (all_edges g) - (designed_backedges \<union> step_loop_backedges))"
  proof (rule acyclic_rank [where f = node_rank])
    fix x y assume "(x, y) \<in> set (all_edges g) - (designed_backedges \<union> step_loop_backedges)"
    then show "node_rank x < node_rank y"
      using wiring_ascends [of p a r s] unfolding g forward_edges_ascend_def list_all_iff
      by fastforce
  qed
  moreover have "\<not> p \<longrightarrow> nodes g = [''agent''] \<and> all_edges g = [(START, ''agent''), (''agent'', END)]"
    unfolding g by (simp add: wiring_no_planner)
  ultimately show ?thesis using g reach decl by blast
qed

theorem build_graph_topology_witness:
  "read_toggles (toggle_config True True True True) = Inr (True, True, True, True)
   \<and> build_graph (\<lambda>c. Inr (JObj [])) (toggle_config True True True True)
       = Inr (build_graph_wiring True True True True)
   \<and> acyclic (set (all_edges (build_graph_wiring True True True True))
               - (designed_backedges \<union> step_loop_backedges))
   \<and> (START, ''summarizer'') \<in> (set (all_edges (build_graph_wiring True True True True)))\<^sup>+
   \<and> (''approval'', END) \<in> (set (all_edges (build_graph_wiring True True True True)))\<^sup>+"
proof -
  have n: "''summarizer'' \<in> set (nodes (build_graph_wiring True True True True))"
          "''approval'' \<in> set (nodes (build_graph_wiring True True True True))"
    by (simp_all add: build_graph_wiring_def add_node_def add_edge_def set_entry_point_def
        add_conditional_edges_def empty_graph_def)
  show ?thesis
    using n build_graph_topology [OF read_toggles_toggle_config build_graph_toggle_config,
        of True True True True]
    by (simp add: read_toggles_toggle_config build_graph_toggle_config)
qed

text \<open>
  C5, as stated, fails: with the planner and the replanner on, the step loop
  executor_pre, executor, replanner, executor_pre is a cycle that uses neither the
  summarizer to agent nor the approval to agent back edge.
\<close>

theorem step_loop_cycle_counterexample:
  "build_graph (\<lambda>c. Inr (JObj [])) (toggle_config True False True True)
     = Inr (build_graph_wiring True False True True)
   \<and> \<not> acyclic (set (all_edges (build_graph_wiring True False True True)) - designed_backedges)"
proof -
  let ?E = "set (all_edges (build_graph_wiring True False True True)) - designed_backedges"
  have "(''executor_pre'', ''executor'') \<in> ?E" "(''executor'', ''replanner'') \<in> ?E"
       "(''replanner'', ''executor_pre'') \<in> ?E"
    by (simp_all add: build_graph_wiring_def add_node_def add_edge_def set_entry_point_def
        add_conditional_edges_def empty_graph_def all_edges_def designed_backedges_def)
  then have "(''executor_pre'', ''executor_pre'') \<in> ?E\<^sup>+"
    by (meson trancl.intros)
  then have "\<not> acyclic ?E" by (auto simp: acyclic_def)
  then show ?thesis by (simp add: build_graph_toggle_config)
qed

section \<open>Properties of the plan execution loop\<close>

declare plan_loop.simps [simp del]

lemma is_running_simps:
  "is_running (PlanUpdated p i st) = (st = ''running'')"
  "\<not> is_running (PlanRevised p new k r)" "\<not> is_running (Token c)"
  "\<not> is_running (LlmStart c)" "\<not> is_running (LlmEnd c)"
  "\<not> is_running (ToolStart n)" "\<not> is_running (ToolEnd n)" "\<not> is_running Done"
  by (simp_all add: is_running_def)

lemma stream_events_not_running: "filter is_running (fst (stream_events debug tr evs)) = []"
  by (induction debug tr evs rule: stream_events.induct)
     (auto simp: is_running_simps split: prod.splits option.splits tracked.splits)

lemma loop_body_Continue_cases:
  assumes "loop_body e pid t d ss past i out = Continue ss' past' i' out'"
  shows "i' = Suc i \<and> (\<exists>rest. out' = out @ rest \<and> length (filter is_running rest) = 1)
         \<and> take (Suc i) ss' = take (Suc i) ss"
  using assms
  by (auto simp: loop_body_def Let_def stream_events_not_running is_running_simps
      split: option.splits if_splits)

lemma loop_body_Break_cases:
  assumes "loop_body e pid t d ss past i out = Break out'"
  shows "\<exists>rest. out' = out @ rest \<and> length (filter is_running rest) = 1"
  using assms
  by (auto simp: loop_body_def Let_def stream_events_not_running is_running_simps comp_def
      split: option.splits if_splits)

lemma loop_body_Raise_cases:
  assumes "loop_body e pid t d ss past i out = Raise out' exc"
  shows "\<exists>rest. out' = out @ rest \<and> length (filter is_running rest) = 1"
  using assms
  by (auto simp: loop_body_def Let_def stream_events_not_running is_running_simps
      split: option.splits if_splits)

lemma plan_loop_emitted_prefix:
  "\<exists>rest. emitted (plan_loop e pid t d ss past i out) = out @ rest"
proof (induction e pid t d ss past i out rule: plan_loop.induct)
  case (1 e pid t d ss past i out)
  show ?case
  proof (cases "i < length ss \<and> int i < plan_max_steps e")
    case False
    then show ?thesis by (subst plan_loop.simps) auto
  next
    case True
    show ?thesis
    proof (cases "loop_body e pid t d ss past i out")
      case (Continue ss' past' i' out')
      from loop_body_Continue_cases [OF Continue] obtain r1 where "out' = out @ r1" by blast
      moreover from "1.IH" [OF True Continue] obtain r2 where
        "emitted (plan_loop e pid t d ss' past' i' out') = out' @ r2" by blast
      ultimately show ?thesis using True Continue by (subst plan_loop.simps) simp
    next
      case (Break out')
      from loop_body_Break_cases [OF Break] obtain r1 where "out' = out @ r1" by blast
      then show ?thesis using True Break by (subst plan_loop.simps) simp
    next
      case (Raise out' exc)
      from loop_body_Raise_cases [OF Raise] obtain r1 where "out' = out @ r1" by blast
      then show ?thesis using True Raise by (subst plan_loop.simps) simp
    qed
  qed
qed

lemma plan_loop_prefix_kept:
  "j \<le> i \<Longrightarrow> take j (final_steps (plan_loop e pid t d ss past i out)) = take j ss"
proof (induction e pid t d ss past i out rule: plan_loop.induct)
  case (1 e pid t d ss past i out)
  show ?case
  proof (cases "i < length ss \<and> int i < plan_max_steps e")
    case False
    then show ?thesis by (subst plan_loop.simps) auto
  next
    case True
    show ?thesis
    proof (cases "loop_body e pid t d ss past i out")
      case (Continue ss' past' i' out')
      from loop_body_Continue_cases [OF Continue]
      have i': "i' = Suc i" and keep: "take (Suc i) ss' = take (Suc i) ss" by blast+
      from "1.prems" i' have "j \<le> i'" by simp
      from "1.IH" [OF True Continue this]
      have "take j (final_steps (plan_loop e pid t d ss' past' i' out')) = take j ss'" .
      also have "take j ss' = take j (take (Suc i) ss')" using "1.prems" by (simp add: min_def)
      also have "\<dots> = take j ss" using "1.prems" keep by (simp add: min_def)
      finally show ?thesis using True Continue by (subst plan_loop.simps) simp
    next
      case (Break out')
      then show ?thesis using True by (subst plan_loop.simps) simp
    next
      case (Raise out' exc)
      then show ?thesis using True by (subst plan_loop.simps) simp
    qed
  qed
qed

lemma plan_loop_running_bound:
  "length (filter is_running (emitted (plan_loop e pid t d ss past i out)))
   \<le> length (filter is_running out) + nat (plan_max_steps e - int i)"
proof (induction e pid t d ss past i out rule: plan_loop.induct)
  case (1 e pid t d ss past i out)
  show ?case
  proof (cases "i < length ss \<and> int i < plan_max_steps e")
    case False
    then show ?thesis by (subst plan_loop.simps) (auto simp: is_running_simps)
  next
    case True
    then have room: "nat (plan_max_steps e - int i) = Suc (nat (plan_max_steps e - int (Suc i)))"
      by linarith
    show ?thesis
    proof (cases "loop_body e pid t d ss past i out")
      case (Continue ss' past' i' out')
      from loop_body_Continue_cases [OF Continue] obtain r1 where
        i': "i' = Suc i" and r1: "out' = out @ r1" "length (filter is_running r1) = 1" by blast
      from "1.IH" [OF True Continue]
      have "length (filter is_running (emitted (plan_loop e pid t d ss' past' i' out')))
            \<le> length (filter is_running out') + nat (plan_max_steps e - int i')" .
      with i' r1 room show ?thesis using True Continue by (subst plan_loop.simps) simp
    next
      case (Break out')
      from loop_body_Break_cases [OF Break] obtain r1 where
        "out' = out @ r1" "length (filter is_running r1) = 1" by blast
      with room show ?thesis using True Break
        by (subst plan_loop.simps) (simp add: is_running_simps)
    next
      case (Raise out' exc)
      from loop_body_Raise_cases [OF Raise] obtain r1 where
        "out' = out @ r1" "length (filter is_running r1) = 1" by blast
      with room show ?thesis using True Raise by (subst plan_loop.simps) simp
    qed
  qed
qed

lemma new_steps_of_nth:
  "j < length revised \<Longrightarrow>
   new_steps_of k revised ! j = StepDict (int k + int j + 1) (py_strip (revised ! j)) ''pending''"
  by (simp add: new_steps_of_def nth_enumerate_eq)

lemma loop_body_revise:
  assumes "sub_agent e step_index all_steps past_steps = (raw, None)"
      and "snd (snd (stream_events debug [] raw)) = None"
      and "Suc step_index < length all_steps"
      and "fst (evaluate_replan e plan_title all_steps
                 (past_steps @ [(step_title_of (all_steps ! step_index),
                                 take 1000 (fst (snd (stream_events debug [] raw))))])
                 (int (Suc step_index))) = Some decision"
      and "action decision = ''revise''" and "revised_steps decision \<noteq> []"
  shows "loop_body e pid plan_title debug all_steps past_steps step_index out
         = Continue
             (take (Suc step_index) all_steps @ new_steps_of (Suc step_index) (revised_steps decision))
             (past_steps @ [(step_title_of (all_steps ! step_index),
                             take 1000 (fst (snd (stream_events debug [] raw))))])
             (Suc step_index)
             (out @ [PlanUpdated pid (step_id_of (all_steps ! step_index) step_index) ''running'']
                  @ fst (stream_events debug [] raw)
                  @ [PlanUpdated pid (step_id_of (all_steps ! step_index) step_index) ''completed'',
                     PlanRevised pid (new_steps_of (Suc step_index) (revised_steps decision))
                       (Suc step_index) (reason decision)])"
  using assms by (simp add: loop_body_def Let_def)

text \<open>
  The stream of a sub-agent in three small runs: \<open>strip\<close> removes Unicode white
  space, both life-cycle events of a model call carry the first 12 characters of the run
  id, and the entry of a tool call popped by the end of a model call raises.
\<close>

lemma strip_example: "py_strip ([0x85, 0x3000] @ py ''a b'' @ [0xA0, 0x2003]) = py ''a b''"
  by code_simp

lemma llm_end_example:
  "stream_events False [] [OnChatModelStart (py ''0123456789abcdefXYZ''), OnChatModelEnd (py ''0123456789abcdefXYZ'')]
   = ([LlmStart (py ''0123456789ab''), LlmEnd (py ''0123456789ab'')], [], None)"
  by code_simp

lemma key_error_example:
  "stream_events True [] [OnToolStart (py ''7'') ''terminal'', OnChatModelEnd (py ''tool_7''), OnToolEnd (py ''7'') ''terminal'']
   = ([ToolStart ''terminal''], [], Some ''KeyError'')"
  by code_simp

text \<open>
  C1, as the code has it. Let the body of the loop run step \<open>step_index\<close> without an
  exception, let steps remain behind it, and let the replanner answer \<open>revise\<close> with
  a non-empty list of titles. Then, with \<open>k = step_index + 1\<close>: the body continues
  with the steps before \<open>k\<close> followed by the new steps, and has emitted the
  plan-revised event with exactly the new steps, \<open>k\<close> and the reason of the decision;
  there are as many new steps as titles, and the \<open>j\<close>-th (from 0) has the id
  \<open>k + j + 1\<close>, the title as \<open>str.strip()\<close> leaves it and the status
  \<open>pending\<close>, so the new ids are the positions \<open>k + 1, k + 2, \<dots>\<close> and not numbers
  behind the highest id of the plan; the event is part of what the whole run emits; and
  the steps before \<open>k\<close> are the same in the plan the run ends with.
\<close>

theorem revise_replaces_suffix:
  assumes "step_index < length all_steps" and "int step_index < plan_max_steps e"
      and "sub_agent e step_index all_steps past_steps = (raw, None)"
      and "snd (snd (stream_events debug [] raw)) = None"
      and "Suc step_index < length all_steps"
      and "fst (evaluate_replan e plan_title all_steps
                 (past_steps @ [(step_title_of (all_steps ! step_index),
                                 take 1000 (fst (snd (stream_events debug [] raw))))])
                 (int (Suc step_index))) = Some decision"
      and "action decision = ''revise''" and "revised_steps decision \<noteq> []"
  shows "loop_body e pid plan_title debug all_steps past_steps step_index out
         = Continue
             (take (Suc step_index) all_steps @ new_steps_of (Suc step_index) (revised_steps decision))
             (past_steps @ [(step_title_of (all_steps ! step_index),
                             take 1000 (fst (snd (stream_events debug [] raw))))])
             (Suc step_index)
             (out @ [PlanUpdated pid (step_id_of (all_steps ! step_index) step_index) ''running'']
                  @ fst (stream_events debug [] raw)
                  @ [PlanUpdated pid (step_id_of (all_steps ! step_index) step_index) ''completed'',
                     PlanRevised pid (new_steps_of (Suc step_index) (revised_steps decision))
                       (Suc step_index) (reason decision)])
       \<and> length (new_steps_of (Suc step_index) (revised_steps decision))
           = length (revised_steps decision)
       \<and> (\<forall>j < length (revised_steps decision).
            new_steps_of (Suc step_index) (revised_steps decision) ! j
            = StepDict (int (Suc step_index) + int j + 1) (py_strip (revised_steps decision ! j))
                ''pending'')
       \<and> PlanRevised pid (new_steps_of (Suc step_index) (revised_steps decision))
            (Suc step_index) (reason decision)
          \<in> set (emitted (plan_loop e pid plan_title debug all_steps past_steps step_index out))
       \<and> take (Suc step_index)
            (final_steps (plan_loop e pid plan_title debug all_steps past_steps step_index out))
          = take (Suc step_index) all_steps"
proof -
  let ?new = "new_steps_of (Suc step_index) (revised_steps decision)"
  let ?past = "past_steps @ [(step_title_of (all_steps ! step_index),
                              take 1000 (fst (snd (stream_events debug [] raw))))]"
  let ?out = "out @ [PlanUpdated pid (step_id_of (all_steps ! step_index) step_index) ''running'']
                  @ fst (stream_events debug [] raw)
                  @ [PlanUpdated pid (step_id_of (all_steps ! step_index) step_index) ''completed'',
                     PlanRevised pid ?new (Suc step_index) (reason decision)]"
  let ?steps = "take (Suc step_index) all_steps @ ?new"
  have body: "loop_body e pid plan_title debug all_steps past_steps step_index out
              = Continue ?steps ?past (Suc step_index) ?out"
    using assms(3-8) by (rule loop_body_revise)
  have unfold: "plan_loop e pid plan_title debug all_steps past_steps step_index out
                = plan_loop e pid plan_title debug ?steps ?past (Suc step_index) ?out"
    using assms(1,2) body by (subst plan_loop.simps) simp
  obtain rest where "emitted (plan_loop e pid plan_title debug ?steps ?past (Suc step_index) ?out)
                     = ?out @ rest"
    using plan_loop_emitted_prefix by blast
  then have ev: "PlanRevised pid ?new (Suc step_index) (reason decision)
                 \<in> set (emitted (plan_loop e pid plan_title debug all_steps past_steps step_index out))"
    using unfold by simp
  have "take (Suc step_index)
          (final_steps (plan_loop e pid plan_title debug ?steps ?past (Suc step_index) ?out))
        = take (Suc step_index) ?steps"
    by (rule plan_loop_prefix_kept) simp
  then have keep: "take (Suc step_index)
          (final_steps (plan_loop e pid plan_title debug all_steps past_steps step_index out))
        = take (Suc step_index) all_steps"
    using unfold assms(5) by simp
  have len: "length ?new = length (revised_steps decision)"
    by (simp add: new_steps_of_def)
  show ?thesis using body len ev keep by (simp add: new_steps_of_nth)
qed

theorem revise_replaces_suffix_witness:
  "PlanRevised ''p'' [StepDict 2 (py ''a'') ''pending'', StepDict 3 (py ''b'') ''pending''] 1 ''r''
     \<in> set (emitted (plan_loop scenario_c_env ''p'' ''t'' False (steps scenario_c_plan) [] 0 []))
   \<and> take 1 (final_steps (plan_loop scenario_c_env ''p'' ''t'' False (steps scenario_c_plan) [] 0 []))
       = [StepDict 1 (py ''one'') ''pending'']"
proof -
  let ?d = "\<lparr>action = ''revise'', response = [],
             revised_steps = [[0x3000] @ py ''a'' @ [0xA0], py ''b''], reason = ''r''\<rparr>"
  have h1: "0 < length (steps scenario_c_plan)" by (simp add: scenario_c_plan_def)
  have h2: "int 0 < plan_max_steps scenario_c_env" by (simp add: scenario_c_env_def)
  have h3: "sub_agent scenario_c_env 0 (steps scenario_c_plan) [] = ([], None)"
    by (simp add: scenario_c_env_def)
  have h3': "snd (snd (stream_events False [] [])) = None" by simp
  have h4: "Suc 0 < length (steps scenario_c_plan)" by (simp add: scenario_c_plan_def)
  have h5: "fst (evaluate_replan scenario_c_env ''t'' (steps scenario_c_plan)
                  ([] @ [(step_title_of (steps scenario_c_plan ! 0),
                          take 1000 (fst (snd (stream_events False [] []))))])
                  (int (Suc 0))) = Some ?d"
    by code_simp
  have h6: "action ?d = ''revise''" "revised_steps ?d \<noteq> []" by simp_all
  have n: "new_steps_of (Suc 0) [[0x3000] @ py ''a'' @ [0xA0], py ''b'']
           = [StepDict 2 (py ''a'') ''pending'', StepDict 3 (py ''b'') ''pending'']"
    by code_simp
  have f: "take (Suc 0) (steps scenario_c_plan) = [StepDict 1 (py ''one'') ''pending'']"
    by (simp add: scenario_c_plan_def)
  show ?thesis
    using revise_replaces_suffix [OF h1 h2 h3 h3' h4 h5 h6, of "''p''" "[]"] n f
    by simp
qed

text \<open>
  C1, as stated, fails in scenario C: the ids of the plan are 1, 2, 3, the replanner
  revises after step 1 with two titles, and the new steps get the ids 2 and 3, not 4
  and 5.
\<close>

theorem revise_ids_counterexample:
  "emitted (stream_plan_execution scenario_c_env scenario_c_plan False)
   = [PlanUpdated ''p'' 1 ''running'', PlanUpdated ''p'' 1 ''completed'',
      PlanRevised ''p'' [StepDict 2 (py ''a'') ''pending'', StepDict 3 (py ''b'') ''pending''] 1 ''r'',
      PlanUpdated ''p'' 2 ''running'', PlanUpdated ''p'' 2 ''completed'',
      PlanUpdated ''p'' 3 ''running'', PlanUpdated ''p'' 3 ''completed'', Done]
   \<and> final_steps (stream_plan_execution scenario_c_env scenario_c_plan False)
     = [StepDict 1 (py ''one'') ''pending'', StepDict 2 (py ''a'') ''pending'',
        StepDict 3 (py ''b'') ''pending'']
   \<and> PlanRevised ''p'' [StepDict 4 (py ''a'') ''pending'', StepDict 5 (py ''b'') ''pending''] 1 ''r''
       \<notin> set (emitted (stream_plan_execution scenario_c_env scenario_c_plan False))"
  by code_simp

text \<open>
  C7. \<open>_evaluate_replan\<close> returns \<open>None\<close> and has not invoked the model when
  replanning is disabled or no step remains from \<open>current_index\<close> on; and when the
  model call on the prompt raises, it returns \<open>None\<close>. Exceptions are those of class
  \<open>Exception\<close>, which is what the \<open>except\<close> clause names.
\<close>

theorem evaluate_replan_degrades_to_none:
  "(\<not> plan_revision_enabled e \<or> py_slice_from all_steps current_index = [] \<longrightarrow>
      evaluate_replan e plan_title all_steps past_steps current_index = (None, []))
   \<and> (replan_llm e (build_replan_prompt plan_title (py_slice_from all_steps current_index)
                      past_steps current_index) = Raises exc \<longrightarrow>
      fst (evaluate_replan e plan_title all_steps past_steps current_index) = None)"
  by (auto simp: evaluate_replan_def Let_def)

theorem evaluate_replan_degrades_to_none_witness:
  "py_slice_from (steps scenario_c_plan) 3 = []
   \<and> evaluate_replan failing_env ''t'' (steps scenario_c_plan) [] 3 = (None, [])
   \<and> py_slice_from (steps scenario_c_plan) 1 \<noteq> []
   \<and> replan_llm failing_env
        (build_replan_prompt ''t'' (py_slice_from (steps scenario_c_plan) 1)
           [(py ''one'', py ''ok'')] 1)
       = Raises ''TimeoutError''
   \<and> fst (evaluate_replan failing_env ''t'' (steps scenario_c_plan) [(py ''one'', py ''ok'')] 1)
       = None"
proof -
  have a: "py_slice_from (steps scenario_c_plan) 3 = []"
    by (simp add: py_slice_from_def scenario_c_plan_def)
  have b: "py_slice_from (steps scenario_c_plan) 1 \<noteq> []"
    by (simp add: py_slice_from_def scenario_c_plan_def)
  have c: "replan_llm failing_env
        (build_replan_prompt ''t'' (py_slice_from (steps scenario_c_plan) 1)
           [(py ''one'', py ''ok'')] 1)
       = Raises ''TimeoutError''"
    by (simp add: failing_env_def)
  show ?thesis
    using a b c
      evaluate_replan_degrades_to_none [of failing_env "steps scenario_c_plan" 3 "''t''" "[]"
        "''TimeoutError''"]
      evaluate_replan_degrades_to_none [of failing_env "steps scenario_c_plan" 1 "''t''"
        "[(py ''one'', py ''ok'')]" "''TimeoutError''"]
    by simp
qed

text \<open>
  C8. \<open>plan_loop\<close> is a total function: its recursion ends because
  \<open>step_index\<close> grows by one in every pass and stays below \<open>plan_max_steps\<close>.
  Whatever the plan, the sub-agent and the replanner do, a run marks at most
  \<open>plan_max_steps\<close> steps as running (none when the setting is zero or negative): the
  bound does not mention the length of the plan.
\<close>

theorem plan_execution_step_ceiling:
  "length (filter is_running (emitted (stream_plan_execution e plan_data debug)))
   \<le> nat (plan_max_steps e)"
  using plan_loop_running_bound [of e "plan_id plan_data" "title plan_data" debug
      "steps plan_data" "[]" 0 "[]"]
  by (simp add: stream_plan_execution_def)

section \<open>Properties of the checkpoint clean-up\<close>












section \<open>Properties of the graph cache\<close>

lemma distinct_of_map: "distinct (map f xs) \<Longrightarrow> distinct xs"
  by (simp add: distinct_map)

lemma sort_key_fst_cong:
  assumes "distinct (map fst xs)" and "distinct (map fst ys)" and "set xs = set ys"
  shows "sort_key fst xs = sort_key fst ys"
proof -
  have dx: "distinct xs" and dy: "distinct ys" using assms(1,2) by (simp_all add: distinct_map)
  then have "mset xs = mset (sort_key fst ys)"
    using assms(3) by (simp add: set_eq_iff_mset_eq_distinct)
  moreover have "inj_on fst (set xs)" using assms(1) by (simp add: distinct_map)
  ultimately show ?thesis by (rule sort_key_inj_key_eq) simp
qed

lemma same_config_sorted:
  "same_config a b \<Longrightarrow> json_sort_keys a = json_sort_keys b"
proof (induction a arbitrary: b)
  case (JList xs)
  then obtain ys where b: "b = JList ys" and all: "list_all2 (\<lambda>same y. same y) (map same_config xs) ys"
    by (auto split: json.splits)
  from all have "list_all2 (\<lambda>x y. same_config x y) xs ys" by (simp add: list_all2_map1)
  then have "map json_sort_keys xs = map json_sort_keys ys"
    using JList.IH
    by (induction xs ys rule: list_all2_induct) auto
  with b show ?case by simp
next
  case (JObj kvs)
  then obtain kvs' where b: "b = JObj kvs'"
    and d: "distinct (map fst kvs)" "distinct (map fst kvs')" and len: "length kvs = length kvs'"
    and all: "list_all (\<lambda>(k, same). case map_of kvs' k of None \<Rightarrow> False | Some w \<Rightarrow> same w)
                (map (map_prod id same_config) kvs)"
    by (auto split: json.splits)
  let ?S = "map_prod id json_sort_keys :: string \<times> json \<Rightarrow> string \<times> json"
  have sub: "set (map ?S kvs) \<subseteq> set (map ?S kvs')"
  proof
    fix e assume "e \<in> set (map ?S kvs)"
    then obtain k v where kv: "(k, v) \<in> set kvs" and e: "e = (k, json_sort_keys v)" by auto
    from all kv obtain w where w: "map_of kvs' k = Some w" and s: "same_config v w"
      by (auto simp: list_all_iff split: option.splits)
    from JObj.IH kv s have "json_sort_keys v = json_sort_keys w" by fastforce
    moreover from w have "(k, w) \<in> set kvs'" by (rule map_of_SomeD)
    ultimately show "e \<in> set (map ?S kvs')" using e by force
  qed
  have dk: "distinct (map fst (map ?S kvs))" "distinct (map fst (map ?S kvs'))"
    using d by (simp_all add: comp_def)
  have dS: "distinct (map ?S kvs)" and dS': "distinct (map ?S kvs')"
    using dk by (blast intro: distinct_of_map)+
  have "card (set (map ?S kvs)) = card (set (map ?S kvs'))"
    using distinct_card [OF dS] distinct_card [OF dS'] len by (simp del: set_map)
  with sub have "set (map ?S kvs) = set (map ?S kvs')"
    by (simp add: card_subset_eq)
  with dk have "sort_key fst (map ?S kvs) = sort_key fst (map ?S kvs')"
    by (rule sort_key_fst_cong)
  with b show ?case by simp
qed simp_all

lemma map_of_filter_key:
  "map_of xs k = (case filter (\<lambda>y. fst y = k) xs of [] \<Rightarrow> None | y # ys \<Rightarrow> Some (snd y))"
  by (induction xs) auto

lemma map_of_sort_key: "map_of (sort_key fst xs) k = map_of xs k"
  by (simp add: map_of_filter_key [of "sort_key fst xs"] map_of_filter_key [of xs] sort_key_stable)

lemma map_of_map_prod_id:
  "map_of (map (map_prod id f) xs) k = map_option f (map_of xs k)"
  by (induction xs) auto

lemma py_get_sorted:
  "py_get (json_sort_keys c) key (json_sort_keys dflt)
   = map_sum id json_sort_keys (py_get c key dflt)"
  by (cases c) (simp_all add: map_of_sort_key map_of_map_prod_id split: option.splits)

lemma sort_key_Nil_iff: "sort_key f xs = [] \<longleftrightarrow> xs = []"
  by (metis length_sort length_0_conv)

lemma truthy_sorted: "truthy (json_sort_keys v) = truthy v"
  by (cases v) (simp_all add: sort_key_Nil_iff)

lemma nodes_cfg_of_sorted:
  "nodes_cfg_of (json_sort_keys c) = map_sum id json_sort_keys (nodes_cfg_of c)"
  using py_get_sorted [of c "''graph''" "JObj []"]
  by (cases "py_get c ''graph'' (JObj [])")
     (simp_all add: nodes_cfg_of_def and_then_def py_get_sorted [of _ "''nodes''" "JObj []", simplified])

lemma node_enabled_sorted:
  "node_enabled (json_sort_keys n) name dflt = map_sum id json_sort_keys (node_enabled n name dflt)"
  using py_get_sorted [of n name "JObj []"]
  by (cases "py_get n name (JObj [])")
     (simp_all add: node_enabled_def and_then_def py_get_sorted [of _ "''enabled''" "JBool dflt", simplified])

lemma read_toggles_sorted: "read_toggles (json_sort_keys c) = read_toggles c"
  unfolding read_toggles_def nodes_cfg_of_sorted
  by (cases "nodes_cfg_of c")
     (auto simp: and_then_def node_enabled_sorted truthy_sorted split: sum.splits)

lemma cleanup_leaves_cache:
  "graph_cache (snd (cleanup_old_checkpoints now s)) = graph_cache s"
  "next_graph (snd (cleanup_old_checkpoints now s)) = next_graph s"
  "compiled_graphs (snd (cleanup_old_checkpoints now s)) = compiled_graphs s"
  by (simp_all add: cleanup_old_checkpoints_def Let_def)

lemma get_or_build_cached:
  assumes "fst (get_or_build_graph hexdigest get_settings now s c) = Inr g"
  shows "graph_cache (snd (get_or_build_graph hexdigest get_settings now s c))
           (config_fingerprint hexdigest c) = Some g"
  using assms
  by (auto simp: get_or_build_graph_def Let_def cleanup_leaves_cache
      split: option.splits sum.splits)

lemma get_or_build_hit:
  assumes "graph_cache s (config_fingerprint hexdigest c) = Some g"
  shows "fst (get_or_build_graph hexdigest get_settings now s c) = Inr g"
  using assms by (simp add: get_or_build_graph_def Let_def cleanup_leaves_cache)

lemma get_or_build_cache_ok:
  assumes "cache_ok s"
  shows "cache_ok (snd (get_or_build_graph hexdigest get_settings now s c))"
proof -
  let ?s = "snd (cleanup_old_checkpoints now s)"
  have ok: "cache_ok ?s" using assms by (simp add: cache_ok_def cleanup_leaves_cache)
  show ?thesis
  proof (cases "graph_cache ?s (config_fingerprint hexdigest c)")
    case (Some g)
    then show ?thesis using ok by (simp add: get_or_build_graph_def Let_def)
  next
    case None
    show ?thesis
    proof (cases "build_graph get_settings c")
      case (Inl err)
      then show ?thesis using ok None by (simp add: get_or_build_graph_def Let_def)
    next
      case (Inr graph)
      have fresh: "\<forall>fp g. graph_cache ?s fp = Some g \<longrightarrow> g \<noteq> next_graph ?s"
        using ok by (auto simp: cache_ok_def)
      have "inj_on ((graph_cache ?s)(config_fingerprint hexdigest c \<mapsto> next_graph ?s))
              (dom ((graph_cache ?s)(config_fingerprint hexdigest c \<mapsto> next_graph ?s)))"
        using ok fresh None unfolding cache_ok_def inj_on_def
        by (auto simp: dom_def split: if_splits) metis+
      moreover have "\<forall>fp g. ((graph_cache ?s)(config_fingerprint hexdigest c \<mapsto> next_graph ?s)) fp
                        = Some g \<longrightarrow> g < Suc (next_graph ?s)"
        using ok by (auto simp: cache_ok_def less_Suc_eq)
      ultimately show ?thesis using None Inr
        by (simp add: get_or_build_graph_def Let_def cache_ok_def)
    qed
  qed
qed

lemma get_or_build_distinct:
  assumes ok: "cache_ok s" and c1: "graph_cache s fp1 = Some g1"
      and ne: "config_fingerprint hexdigest c \<noteq> fp1"
      and r: "fst (get_or_build_graph hexdigest get_settings now s c) = Inr g"
  shows "g \<noteq> g1"
proof -
  let ?s = "snd (cleanup_old_checkpoints now s)"
  show ?thesis
  proof (cases "graph_cache ?s (config_fingerprint hexdigest c)")
    case (Some g')
    then have "g' = g" using r by (simp add: get_or_build_graph_def Let_def)
    with Some have "graph_cache s (config_fingerprint hexdigest c) = Some g"
      by (simp add: cleanup_leaves_cache)
    with ok c1 ne show ?thesis
      unfolding cache_ok_def inj_on_def by (metis domI)
  next
    case None
    with r have "g = next_graph s"
      by (auto simp: get_or_build_graph_def Let_def cleanup_leaves_cache split: sum.splits)
    moreover from ok c1 have "g1 < next_graph s" by (auto simp: cache_ok_def)
    ultimately show ?thesis by simp
  qed
qed

lemma cache_ok_invalidate: "cache_ok (invalidate_graph_cache s)"
  by (simp add: cache_ok_def invalidate_graph_cache_def)

lemma cache_ok_initial: "cache_ok initial_builder_state"
  by (simp add: cache_ok_def initial_builder_state_def)

lemma get_or_build_miss:
  assumes "graph_cache s (config_fingerprint hexdigest c) = None"
      and "build_graph get_settings c = Inr graph"
  shows "fst (get_or_build_graph hexdigest get_settings now s c) = Inr (next_graph s)"
  using assms by (simp add: get_or_build_graph_def Let_def cleanup_leaves_cache)

text \<open>
  What the cache does with two calls in a row. A configuration that is the same
  dictionary up to the order of its entries has the same fingerprint, whatever the
  digest, and gets the object of the first call. Configurations whose toggles differ
  have different key-sorted trees. Whether the second call returns another object is
  decided by the fingerprints alone: equal fingerprints give the same object, different
  fingerprints give different objects.
\<close>

lemma same_config_same_graph:
  assumes "same_config c1 c2"
      and "fst (get_or_build_graph hexdigest get_settings now s c1) = Inr g1"
  shows "config_fingerprint hexdigest c1 = config_fingerprint hexdigest c2"
    and "fst (get_or_build_graph hexdigest get_settings now'
               (snd (get_or_build_graph hexdigest get_settings now s c1)) c2) = Inr g1"
proof -
  show fp: "config_fingerprint hexdigest c1 = config_fingerprint hexdigest c2"
    using assms(1) by (simp add: config_fingerprint_def same_config_sorted)
  from get_or_build_cached [OF assms(2)] fp
  show "fst (get_or_build_graph hexdigest get_settings now'
               (snd (get_or_build_graph hexdigest get_settings now s c1)) c2) = Inr g1"
    by (simp add: get_or_build_hit)
qed

lemma toggles_differ_sorted_differ:
  "read_toggles c1 \<noteq> read_toggles c2 \<Longrightarrow> json_sort_keys c1 \<noteq> json_sort_keys c2"
  using read_toggles_sorted [of c1] read_toggles_sorted [of c2] by metis

lemma equal_fingerprints_same_graph:
  assumes "fst (get_or_build_graph hexdigest get_settings now s c1) = Inr g1"
      and "config_fingerprint hexdigest c1 = config_fingerprint hexdigest c2"
  shows "fst (get_or_build_graph hexdigest get_settings now'
               (snd (get_or_build_graph hexdigest get_settings now s c1)) c2) = Inr g1"
  using get_or_build_cached [OF assms(1)] assms(2) by (simp add: get_or_build_hit)

lemma distinct_fingerprints_distinct_graphs:
  assumes "cache_ok s"
      and "fst (get_or_build_graph hexdigest get_settings now s c1) = Inr g1"
      and "config_fingerprint hexdigest c1 \<noteq> config_fingerprint hexdigest c2"
      and "fst (get_or_build_graph hexdigest get_settings now'
                 (snd (get_or_build_graph hexdigest get_settings now s c1)) c2) = Inr g2"
  shows "g1 \<noteq> g2"
proof -
  have "cache_ok (snd (get_or_build_graph hexdigest get_settings now s c1))"
    using assms(1) by (rule get_or_build_cache_ok)
  from get_or_build_distinct [OF this get_or_build_cached [OF assms(2)] _ assms(4)] assms(3)
  show ?thesis by metis
qed

end
